theory Spec2Isabelle
  imports Main "HOL-Library.Sublist"
begin

section \<open>Strings\<close>

text \<open>
  A Python \<open>str\<close> is modelled as a \<open>string\<close>; a \<open>char\<close> stands for the code point
  of the same number (0 to 255). On these code points \<open>isspace\<close> and \<open>lower_char\<close>
  are what \<open>str.isspace\<close> and \<open>str.lower\<close> compute.
\<close>

definition isspace :: "char \<Rightarrow> bool" where
  "isspace c = ((of_char c :: nat) \<in> {9, 10, 11, 12, 13, 28, 29, 30, 31, 32, 133, 160})"

definition lower_char :: "char \<Rightarrow> char" where
  "lower_char c =
     (let n = (of_char c :: nat)
      in if (65 \<le> n \<and> n \<le> 90) \<or> (192 \<le> n \<and> n \<le> 222 \<and> n \<noteq> 215)
         then char_of (n + 32) else c)"

definition lower :: "string \<Rightarrow> string" where
  "lower s = map lower_char s"

text \<open>
  \<open>s.strip(chars)\<close>: the characters of \<open>chars\<close> are removed from the left end, then
  from the right end of what is left. \<open>s.strip()\<close> removes whitespace.
\<close>

definition strip :: "(char \<Rightarrow> bool) \<Rightarrow> string \<Rightarrow> string" where
  "strip p s = rev (dropWhile p (rev (dropWhile p s)))"

text \<open>
  \<open>s.split()\<close>: one scan from the left; \<open>cur\<close> is the token being read. Runs of
  whitespace separate the tokens and no token is empty.
\<close>

fun split_from :: "string \<Rightarrow> string \<Rightarrow> string list" where
  "split_from cur [] = (if cur = [] then [] else [cur])"
| "split_from cur (c # cs) =
     (if isspace c
      then (if cur = [] then split_from [] cs else cur # split_from [] cs)
      else split_from (cur @ [c]) cs)"

definition split :: "string \<Rightarrow> string list" where
  "split s = split_from [] s"

text \<open>
  The argument of \<open>strip\<close> in \<open>_strip_and_lowercase_the_word\<close>, character by
  character as the literal \<^verbatim>\<open>'()^%#@&!?-.,[]:;"\'\/\\'\<close> denotes it: the
  escape \<^verbatim>\<open>\'\<close> is a quote, \<^verbatim>\<open>\/\<close> is no escape and stays a
  backslash and a slash, \<^verbatim>\<open>\\\<close> is a backslash.
\<close>

definition strip_chars :: string where
  "strip_chars =
     ''()^%#@&!?-.,[]:;'' @ [CHR 0x22, CHR 0x27, CHR 0x5C, CHR ''/'', CHR 0x5C]"

definition strip_and_lowercase_the_word :: "string \<Rightarrow> string" where
  "strip_and_lowercase_the_word word =
     (let prepared_word = strip (\<lambda>c. c \<in> set strip_chars) word;
          prepared_word = lower prepared_word
      in prepared_word)"

section \<open>The parsed document\<close>

text \<open>
  The tree \<open>bs4.BeautifulSoup(resp.text, "html.parser")\<close> returns: a string of the
  document, or a tag with its name, its attribute dictionary and its children in
  document order. The strings of the tree are the ones bs4 yields from
  \<open>stripped_strings\<close> and \<open>text\<close>.
\<close>

datatype node =
    NavigableString string
  | Tag string "string \<rightharpoonup> string" "node list"

text \<open>\<open>tag.descendants\<close>: every node below the tag, in document order.\<close>

fun descendants :: "node \<Rightarrow> node list" where
  "descendants (NavigableString s) = []"
| "descendants (Tag name attrs contents) = concat (map (\<lambda>c. c # descendants c) contents)"

fun navigable_strings :: "node list \<Rightarrow> string list" where
  "navigable_strings [] = []"
| "navigable_strings (NavigableString s # ns) = s # navigable_strings ns"
| "navigable_strings (Tag name attrs contents # ns) = navigable_strings ns"

text \<open>\<open>tag.stripped_strings\<close>: each string stripped of whitespace; empty ones are skipped.\<close>

definition stripped_strings :: "node \<Rightarrow> string list" where
  "stripped_strings tag =
     filter (\<lambda>s. s \<noteq> []) (map (strip isspace) (navigable_strings (descendants tag)))"

text \<open>\<open>tag.text\<close>: the strings below the tag, joined.\<close>

definition get_text :: "node \<Rightarrow> string" where
  "get_text tag = concat (navigable_strings (descendants tag))"

text \<open>\<open>tag.has_attr(key)\<close> and \<open>tag[key]\<close> read the attribute dictionary.\<close>

fun tag_get :: "node \<Rightarrow> string \<Rightarrow> string option" where
  "tag_get (NavigableString s) key = None"
| "tag_get (Tag name attrs contents) key = attrs key"

text \<open>\<open>tag.find_all(f)\<close> calls \<open>f\<close> on every tag below \<open>tag\<close>, never on a string.\<close>

definition find_all :: "(node \<Rightarrow> bool) \<Rightarrow> node \<Rightarrow> node list" where
  "find_all f tag = filter f (descendants tag)"

text \<open>\<open>soup.find(id=v)\<close>: the first tag whose \<open>id\<close> attribute is \<open>v\<close>, or \<open>None\<close>.\<close>

definition find_id :: "node \<Rightarrow> string \<Rightarrow> node option" where
  "find_id soup v = List.find (\<lambda>n. tag_get n ''id'' = Some v) (descendants soup)"

text \<open>\<open>s.startswith(prefix)\<close>.\<close>

fun startswith :: "string \<Rightarrow> string \<Rightarrow> bool" where
  "startswith s [] = True"
| "startswith [] (p # ps) = False"
| "startswith (c # cs) (p # ps) = (c = p \<and> startswith cs ps)"

text \<open>
  \<open>_check_good_link\<close> (line 84). The conjunction is evaluated left to right, so the
  \<open>href\<close> is read only where the tag has one.
\<close>

fun check_good_link :: "node \<Rightarrow> bool" where
  "check_good_link (NavigableString s) = False"
| "check_good_link (Tag name attrs contents) =
     (name = ''a'' \<and>
      (case attrs ''href'' of
         None \<Rightarrow> False
       | Some href \<Rightarrow> startswith href ''/wiki'' \<and> CHR '':'' \<notin> set href))"

section \<open>The word counter\<close>

text \<open>
  A \<open>collections.Counter\<close> is a dictionary that keeps its keys in the order of their
  first insertion; \<open>most_common\<close> depends on that order where counts are equal.
  \<open>add_count c elem n\<close> is \<open>c[elem] = c[elem] + n\<close>, a missing key counting as 0.
\<close>

type_synonym counter = "(string \<times> int) list"

fun add_count :: "counter \<Rightarrow> string \<Rightarrow> int \<Rightarrow> counter" where
  "add_count [] elem n = [(elem, n)]"
| "add_count ((k, v) # kvs) elem n =
     (if k = elem then (k, v + n) # kvs else (k, v) # add_count kvs elem n)"

definition Counter :: "string list \<Rightarrow> counter" where
  "Counter iterable = fold (\<lambda>elem c. add_count c elem 1) iterable []"

text \<open>\<open>self += other\<close>: the counts are added, then only positive counts are kept.\<close>

definition counter_iadd :: "counter \<Rightarrow> counter \<Rightarrow> counter" where
  "counter_iadd self other =
     filter (\<lambda>(elem, count). 0 < count)
       (fold (\<lambda>(elem, count) c. add_count c elem count) other self)"

text \<open>\<open>most_common(n)\<close>: the \<open>n\<close> largest counts first, equal counts in dictionary order.\<close>

definition most_common :: "nat \<Rightarrow> counter \<Rightarrow> counter" where
  "most_common n c = take n (sort_key (\<lambda>(elem, count). - count) c)"

section \<open>The crawler\<close>

datatype exn =
    RequestException string
  | AttributeError
  | KeyError
  | ZeroDivisionError

text \<open>The fields of \<open>CheckingPhenomenon\<close>, as \<open>__init__\<close> sets them (lines 30 to 37).\<close>

record crawler =
  wiki_words_counter :: counter
  total_number_of_words_on_wiki_pages :: int
  url :: string
  max_page_number :: int
  content :: "node option"
  visited_pages :: "string set"
  heading :: "node option"

definition init :: "string \<Rightarrow> int \<Rightarrow> crawler" where
  "init starting_url max_pages =
     \<lparr>wiki_words_counter = Counter [],
      total_number_of_words_on_wiki_pages = 0,
      url = starting_url,
      max_page_number = max_pages,
      content = None,
      visited_pages = {},
      heading = None\<rparr>"

text \<open>
  What \<open>requests.get(url)\<close> gives: an exception, or a response with the URL reached
  after redirects and the parsed body. The network is a parameter of the model: the
  answer may depend on the iteration in which the request is made.
\<close>

record response =
  resp_url :: string
  soup :: node

type_synonym requests = "nat \<Rightarrow> string \<Rightarrow> exn + response"

text \<open>One constructor for each \<open>print\<close> of the source, with the values it formats.\<close>

datatype line =
    Print_infinite_loop
  | Print_current_url string
  | Print_top_ten counter
  | Print_average int
  | Print_heading string
  | Print_found nat
  | Print_exception exn
  | Print_not_found int

text \<open>
  How the process ends: \<open>DeadEnd\<close> is \<open>exit(code=0)\<close> on line 64, \<open>FoundPhilosophy\<close>
  is \<open>exit(code=0)\<close> on line 109, \<open>Failed\<close> is \<open>exit()\<close> on line 113,
  \<open>Exhausted\<close> is the return of \<open>run\<close> after line 116, and \<open>Uncaught e\<close> is an
  exception that leaves \<open>run\<close>. \<open>exit\<close> raises \<open>SystemExit\<close>, which is no
  \<open>Exception\<close>: the handler on line 110 does not catch it.
\<close>

datatype ending = DeadEnd | FoundPhilosophy | Failed | Exhausted | Uncaught exn

fun exit_code :: "ending \<Rightarrow> int" where
  "exit_code DeadEnd = 0"
| "exit_code FoundPhilosophy = 0"
| "exit_code Failed = 0"
| "exit_code Exhausted = 0"
| "exit_code (Uncaught e) = 1"

datatype 'a ctl = Normal 'a | Raised exn | Exit ending

text \<open>
  \<open>_get_words_from_page\<close> (lines 66 to 79). Every element of the list on line 70 is
  a list, so the branch of line 75 is never taken. The inner loop only assigns
  \<open>prepared_word\<close>; the test of line 77 runs once for each string, after that loop.
\<close>

definition get_words_from_page :: "crawler \<Rightarrow> exn + string list" where
  "get_words_from_page self =
     (case content self of
        None \<Rightarrow> Inl AttributeError
      | Some c \<Rightarrow>
          Inr (fold
            (\<lambda>list_or_word list_of_words.
               let prepared_word =
                     fold (\<lambda>word prepared_word. strip_and_lowercase_the_word word)
                       list_or_word []
               in if prepared_word \<noteq> [] then list_of_words @ [prepared_word]
                  else list_of_words)
            (map split (stripped_strings c)) []))"

text \<open>The loop of lines 57 to 60 over the tags \<open>find_all\<close> returned.\<close>

fun first_new_url :: "node list \<Rightarrow> string set \<Rightarrow> exn + string option" where
  "first_new_url [] visited = Inr None"
| "first_new_url (tag # tags) visited =
     (case tag_get tag ''href'' of
        None \<Rightarrow> Inl KeyError
      | Some href \<Rightarrow>
          (let new_url = ''https://en.wikipedia.org'' @ href
           in if new_url \<notin> visited then Inr (Some new_url)
              else first_new_url tags visited))"

text \<open>\<open>_find_and_save_next_url\<close> (lines 55 to 64): what it prints and how it ends.\<close>

definition find_and_save_next_url :: "crawler \<Rightarrow> string \<Rightarrow> line list \<times> string ctl" where
  "find_and_save_next_url self current_url =
     (case content self of
        None \<Rightarrow> ([], Raised AttributeError)
      | Some c \<Rightarrow>
          (case first_new_url (find_all check_good_link c) (visited_pages self) of
             Inl e \<Rightarrow> ([], Raised e)
           | Inr (Some new_url) \<Rightarrow> ([], Normal new_url)
           | Inr None \<Rightarrow>
               ([Print_infinite_loop, Print_current_url (url self)], Exit DeadEnd)))"

text \<open>
  \<open>_parse_and_count_words\<close> (lines 39 to 53), in iteration \<open>i\<close>: the crawler as the
  call leaves it, what was printed, and how the call ended.
\<close>

definition parse_and_count_words ::
    "requests \<Rightarrow> nat \<Rightarrow> crawler \<Rightarrow> crawler \<times> line list \<times> unit ctl" where
  "parse_and_count_words get i self =
     (case get i (url self) of
        Inl e \<Rightarrow> (self, [], Raised e)
      | Inr resp \<Rightarrow>
          (let current_url = resp_url resp;
               self = self\<lparr>visited_pages := insert current_url (visited_pages self)\<rparr>;
               self = self\<lparr>heading := find_id (soup resp) ''firstHeading''\<rparr>;
               self = self\<lparr>content := find_id (soup resp) ''mw-content-text''\<rparr>
           in case get_words_from_page self of
                Inl e \<Rightarrow> (self, [], Raised e)
              | Inr words \<Rightarrow>
                  (let self = self\<lparr>wiki_words_counter :=
                                counter_iadd (wiki_words_counter self) (Counter words)\<rparr>;
                       self = self\<lparr>total_number_of_words_on_wiki_pages :=
                                total_number_of_words_on_wiki_pages self + int (length words)\<rparr>
                   in case find_and_save_next_url self current_url of
                        (out, Normal new_url) \<Rightarrow> (self\<lparr>url := new_url\<rparr>, out, Normal ())
                      | (out, Raised e) \<Rightarrow> (self, out, Raised e)
                      | (out, Exit t) \<Rightarrow> (self, out, Exit t))))"

text \<open>
  \<open>_print_statistics\<close> (lines 93 to 98): the first line is printed before the
  quotient of the second is computed.
\<close>

definition print_statistics :: "crawler \<Rightarrow> int \<Rightarrow> line list \<times> exn option" where
  "print_statistics self number_of_iterations =
     (let out = [Print_top_ten (most_common 10 (wiki_words_counter self))]
      in if number_of_iterations = 0 then (out, Some ZeroDivisionError)
         else (out @ [Print_average
                 (total_number_of_words_on_wiki_pages self div number_of_iterations)],
               None))"

text \<open>The body of the \<open>try\<close> (lines 104 to 109) in iteration \<open>i\<close>.\<close>

definition try_body ::
    "requests \<Rightarrow> nat \<Rightarrow> crawler \<Rightarrow> crawler \<times> line list \<times> unit ctl" where
  "try_body get i self =
     (case parse_and_count_words get i self of
        (self, out, Normal u) \<Rightarrow>
          (case heading self of
             None \<Rightarrow> (self, out, Raised AttributeError)
           | Some h \<Rightarrow>
               (let out = out @ [Print_heading (get_text h)]
                in if get_text h = ''Philosophy''
                   then (let out = out @ [Print_found i]
                         in case print_statistics self (int i + 1) of
                              (ls, None) \<Rightarrow> (self, out @ ls, Exit FoundPhilosophy)
                            | (ls, Some e) \<Rightarrow> (self, out @ ls, Raised e))
                   else (self, out, Normal ())))
      | (self, out, Raised e) \<Rightarrow> (self, out, Raised e)
      | (self, out, Exit t) \<Rightarrow> (self, out, Exit t))"

record outcome =
  printed :: "line list"
  ending :: ending
  final :: crawler

text \<open>Lines 114 to 116, after the loop and outside the \<open>try\<close>.\<close>

definition after_loop :: "crawler \<Rightarrow> line list \<Rightarrow> outcome" where
  "after_loop self out =
     (let out = out @ [Print_not_found (max_page_number self)]
      in case print_statistics self (max_page_number self) of
           (ls, None) \<Rightarrow> \<lparr>printed = out @ ls, ending = Exhausted, final = self\<rparr>
         | (ls, Some e) \<Rightarrow> \<lparr>printed = out @ ls, ending = Uncaught e, final = self\<rparr>)"

text \<open>
  The loop of \<open>run\<close> (lines 102 to 113) over the indices still to come; \<open>out\<close> is
  what has been printed so far.
\<close>

fun for_loop :: "requests \<Rightarrow> nat list \<Rightarrow> crawler \<Rightarrow> line list \<Rightarrow> outcome" where
  "for_loop get [] self out = after_loop self out"
| "for_loop get (i # rest) self out =
     (case try_body get i self of
        (self, ls, Normal u) \<Rightarrow> for_loop get rest self (out @ ls)
      | (self, ls, Raised e) \<Rightarrow>
          \<lparr>printed = out @ ls @ [Print_exception e], ending = Failed, final = self\<rparr>
      | (self, ls, Exit t) \<Rightarrow> \<lparr>printed = out @ ls, ending = t, final = self\<rparr>)"

text \<open>\<open>run\<close>: \<open>range(n)\<close> is empty for \<open>n \<le> 0\<close>.\<close>

definition run :: "requests \<Rightarrow> crawler \<Rightarrow> outcome" where
  "run get self = for_loop get [0..<nat (max_page_number self)] self []"

section \<open>The specification's notions\<close>

text \<open>
  The specification's link candidates of a content node: the absolute URLs of the
  qualifying anchors, in document order. \<open>absolute_urls\<close> prefixes the fixed origin
  to the \<open>href\<close> of each tag.
\<close>

fun absolute_urls :: "node list \<Rightarrow> string list" where
  "absolute_urls [] = []"
| "absolute_urls (tag # tags) =
     (case tag_get tag ''href'' of
        None \<Rightarrow> absolute_urls tags
      | Some href \<Rightarrow> (''https://en.wikipedia.org'' @ href) # absolute_urls tags)"

definition candidate_urls :: "node \<Rightarrow> string list" where
  "candidate_urls c = absolute_urls (find_all check_good_link c)"

text \<open>The specification's truncating integer division: the quotient rounded towards zero.\<close>

definition truncating_division :: "int \<Rightarrow> int \<Rightarrow> int" where
  "truncating_division a b = sgn a * sgn b * (\<bar>a\<bar> div \<bar>b\<bar>)"

text \<open>The two lines of \<open>_print_statistics\<close>.\<close>

fun is_statistics :: "line \<Rightarrow> bool" where
  "is_statistics (Print_top_ten c) = True"
| "is_statistics (Print_average a) = True"
| "is_statistics l = False"

section \<open>Example documents\<close>

text \<open>A parsed article: the heading and the main content under their \<open>id\<close>s.\<close>

definition page :: "string \<Rightarrow> node list \<Rightarrow> node" where
  "page title body =
     Tag ''[document]'' Map.empty
       [Tag ''h1'' [''id'' \<mapsto> ''firstHeading''] [NavigableString title],
        Tag ''div'' [''id'' \<mapsto> ''mw-content-text''] body]"

definition anchor :: "string \<Rightarrow> node" where
  "anchor href = Tag ''a'' [''href'' \<mapsto> href] []"

text \<open>A network that knows the listed pages: requested URL, final URL, document.\<close>

definition wiki :: "(string \<times> string \<times> node) list \<Rightarrow> requests" where
  "wiki pages i u =
     (case map_of pages u of
        None \<Rightarrow> Inl (RequestException ''connection failed'')
      | Some (final_url, document) \<Rightarrow> Inr \<lparr>resp_url = final_url, soup = document\<rparr>)"

definition random_url :: string where
  "random_url = ''https://en.wikipedia.org/wiki/Special:Random''"

definition cat_url :: string where
  "cat_url = ''https://en.wikipedia.org/wiki/Cat''"

definition philosophy_url :: string where
  "philosophy_url = ''https://en.wikipedia.org/wiki/Philosophy''"

definition island_url :: string where
  "island_url = ''https://en.wikipedia.org/wiki/Island''"

definition cat_body :: "node list" where
  "cat_body =
     [Tag ''p'' Map.empty
        [NavigableString ''Hello big world'',
         anchor ''/wiki/File:Cat.jpg'',
         anchor ''/wiki/Cat'',
         anchor ''/wiki/Philosophy'']]"

definition cat_page :: node where
  "cat_page = page ''Cat'' cat_body"

text \<open>A Philosophy article whose only qualifying link leads back to the Cat article.\<close>

definition philosophy_page :: node where
  "philosophy_page =
     page ''Philosophy''
       [Tag ''p'' Map.empty [NavigableString ''Love of wisdom'', anchor ''/wiki/Cat'']]"

text \<open>A Philosophy article with a link to an article not yet visited.\<close>

definition philosophy_page_onward :: node where
  "philosophy_page_onward =
     page ''Philosophy''
       [Tag ''p'' Map.empty
          [NavigableString ''Love of wisdom'', anchor ''/wiki/Cat'', anchor ''/wiki/Truth'']]"

text \<open>An article without any link.\<close>

definition island_page :: node where
  "island_page = page ''Island'' [Tag ''p'' Map.empty [NavigableString ''No way out'']]"

definition cycle_wiki :: requests where
  "cycle_wiki =
     wiki [(random_url, cat_url, cat_page), (philosophy_url, philosophy_url, philosophy_page)]"

definition onward_wiki :: requests where
  "onward_wiki =
     wiki [(random_url, cat_url, cat_page),
           (philosophy_url, philosophy_url, philosophy_page_onward)]"

definition island_wiki :: requests where
  "island_wiki = wiki [(island_url, island_url, island_page)]"

text \<open>A crawler that has fetched the Cat article, before the link selection.\<close>

definition cat_crawler :: crawler where
  "cat_crawler =
     (init random_url 3)
       \<lparr>content := Some (Tag ''div'' [''id'' \<mapsto> ''mw-content-text''] cat_body),
        visited_pages := {cat_url}\<rparr>"

section \<open>The word normalizer\<close>

lemma strip_decomp:
  "s = takeWhile p s @ strip p s @ rev (takeWhile p (rev (dropWhile p s)))"
proof -
  have "rev (dropWhile p s) =
      takeWhile p (rev (dropWhile p s)) @ dropWhile p (rev (dropWhile p s))"
    by simp
  then have "dropWhile p s =
      rev (dropWhile p (rev (dropWhile p s))) @ rev (takeWhile p (rev (dropWhile p s)))"
    by (metis rev_append rev_rev_ident)
  then have "dropWhile p s = strip p s @ rev (takeWhile p (rev (dropWhile p s)))"
    by (simp add: strip_def)
  then show ?thesis
    by (metis takeWhile_dropWhile_id)
qed

lemma strip_Nil_iff: "strip p s = [] \<longleftrightarrow> (\<forall>c\<in>set s. p c)"
proof
  assume "strip p s = []"
  then have a: "\<forall>c\<in>set (dropWhile p s). p c"
    by (simp add: strip_def dropWhile_eq_Nil_conv)
  have "dropWhile p s = []"
  proof (rule ccontr)
    assume n: "dropWhile p s \<noteq> []"
    then have "\<not> p (hd (dropWhile p s))" by (rule hd_dropWhile)
    with a n show False by (meson hd_in_set)
  qed
  then show "\<forall>c\<in>set s. p c" by (simp add: dropWhile_eq_Nil_conv)
next
  assume "\<forall>c\<in>set s. p c"
  then have "dropWhile p s = []" by simp
  then show "strip p s = []" unfolding strip_def by (simp only: rev.simps dropWhile.simps)
qed

lemma last_dropWhile_eq: "dropWhile p xs \<noteq> [] \<Longrightarrow> last (dropWhile p xs) = last xs"
  by (metis last_appendR takeWhile_dropWhile_id)

lemma strip_ends:
  assumes "strip p s \<noteq> []"
  shows "\<not> p (hd (strip p s))" and "\<not> p (last (strip p s))"
proof -
  let ?d = "dropWhile p s"
  let ?e = "dropWhile p (rev ?d)"
  from assms have e: "?e \<noteq> []" by (simp add: strip_def)
  have d: "?d \<noteq> []"
  proof
    assume "?d = []"
    then have "?e = []" by (simp only: rev.simps dropWhile.simps)
    with e show False by contradiction
  qed
  have "hd (strip p s) = last ?e" using e by (simp add: strip_def hd_rev)
  also have "\<dots> = last (rev ?d)" using e by (rule last_dropWhile_eq)
  also have "\<dots> = hd ?d" using d by (simp add: last_rev)
  finally show "\<not> p (hd (strip p s))" using hd_dropWhile [OF d] by simp
  have "last (strip p s) = hd ?e" using e by (simp add: strip_def last_rev)
  then show "\<not> p (last (strip p s))" using hd_dropWhile [OF e] by simp
qed

lemma lower_Nil_iff: "lower s = [] \<longleftrightarrow> s = []"
  by (simp add: lower_def)

text \<open>
  Claim C8. For every token, \<open>_strip_and_lowercase_the_word\<close> removes the longest
  prefix and the longest suffix made of characters of the strip set and lowercases
  what is left; the result is empty exactly when the stripped token is empty, which is
  exactly when the token consists of strip-set characters only. \<open>Hello,\<close> becomes
  \<open>hello\<close>, \<open>[Brackets]\<close> becomes \<open>brackets\<close>, and the empty token stays empty.
\<close>

theorem strip_and_lowercase_the_word_spec:
  "(\<exists>pre mid suf. word = pre @ mid @ suf
       \<and> set pre \<subseteq> set strip_chars \<and> set suf \<subseteq> set strip_chars
       \<and> (mid = [] \<or> (hd mid \<notin> set strip_chars \<and> last mid \<notin> set strip_chars))
       \<and> strip_and_lowercase_the_word word = lower mid)
   \<and> (strip_and_lowercase_the_word word = []
        \<longleftrightarrow> strip (\<lambda>c. c \<in> set strip_chars) word = [])
   \<and> (strip_and_lowercase_the_word word = [] \<longleftrightarrow> set word \<subseteq> set strip_chars)
   \<and> strip_and_lowercase_the_word ''Hello,'' = ''hello''
   \<and> strip_and_lowercase_the_word ''[Brackets]'' = ''brackets''
   \<and> strip_and_lowercase_the_word [] = []"
proof -
  let ?p = "\<lambda>c. c \<in> set strip_chars"
  let ?mid = "strip ?p word"
  have n: "strip_and_lowercase_the_word word = lower ?mid"
    by (simp add: strip_and_lowercase_the_word_def)
  have pre: "set (takeWhile ?p word) \<subseteq> set strip_chars"
    by (auto dest: set_takeWhileD)
  have suf: "set (rev (takeWhile ?p (rev (dropWhile ?p word)))) \<subseteq> set strip_chars"
    by (auto dest: set_takeWhileD)
  have ends: "?mid = [] \<or> (hd ?mid \<notin> set strip_chars \<and> last ?mid \<notin> set strip_chars)"
    using strip_ends [of ?p word] by blast
  have a: "\<exists>pre mid suf. word = pre @ mid @ suf
       \<and> set pre \<subseteq> set strip_chars \<and> set suf \<subseteq> set strip_chars
       \<and> (mid = [] \<or> (hd mid \<notin> set strip_chars \<and> last mid \<notin> set strip_chars))
       \<and> strip_and_lowercase_the_word word = lower mid"
    using strip_decomp [of word ?p] pre suf ends n by blast
  have b: "strip_and_lowercase_the_word word = [] \<longleftrightarrow> ?mid = []"
    by (simp add: n lower_Nil_iff)
  have c: "strip_and_lowercase_the_word word = [] \<longleftrightarrow> set word \<subseteq> set strip_chars"
    unfolding b strip_Nil_iff by blast
  have e1: "strip_and_lowercase_the_word ''Hello,'' = ''hello''" by code_simp
  have e2: "strip_and_lowercase_the_word ''[Brackets]'' = ''brackets''" by code_simp
  have e3: "strip_and_lowercase_the_word [] = []" by code_simp
  from a b c e1 e2 e3 show ?thesis by blast
qed

section \<open>The link selector\<close>

lemma startswith_prefix: "startswith s p \<longleftrightarrow> prefix p s"
  by (induction s p rule: startswith.induct) auto

lemma check_good_link_href:
  "check_good_link tag \<Longrightarrow> \<exists>href. tag_get tag ''href'' = Some href"
  by (cases tag) (auto split: option.splits)

lemma first_new_url_find:
  "(\<And>tag. tag \<in> set tags \<Longrightarrow> tag_get tag ''href'' \<noteq> None) \<Longrightarrow>
   first_new_url tags visited = Inr (List.find (\<lambda>u. u \<notin> visited) (absolute_urls tags))"
  by (induction tags) (auto simp: Let_def split: option.splits)

lemma find_Some_decomp:
  "List.find P xs = Some x \<Longrightarrow> \<exists>pre suf. xs = pre @ x # suf \<and> (\<forall>y\<in>set pre. \<not> P y) \<and> P x"
proof (induction xs)
  case Nil
  then show ?case by simp
next
  case (Cons a xs)
  show ?case
  proof (cases "P a")
    case True
    with Cons.prems have "a = x" by simp
    with True have "a # xs = [] @ x # xs \<and> (\<forall>y\<in>set []. \<not> P y) \<and> P x" by simp
    then show ?thesis by blast
  next
    case False
    with Cons.prems have "List.find P xs = Some x" by simp
    then obtain pre suf where "xs = pre @ x # suf" "\<forall>y\<in>set pre. \<not> P y" "P x"
      using Cons.IH by blast
    with False have "a # xs = (a # pre) @ x # suf \<and> (\<forall>y\<in>set (a # pre). \<not> P y) \<and> P x"
      by simp
    then show ?thesis by blast
  qed
qed

lemma find_and_save_next_url_find:
  assumes "content self = Some c"
  shows "find_and_save_next_url self current_url =
     (case List.find (\<lambda>u. u \<notin> visited_pages self) (candidate_urls c) of
        Some new_url \<Rightarrow> ([], Normal new_url)
      | None \<Rightarrow> ([Print_infinite_loop, Print_current_url (url self)], Exit DeadEnd))"
proof -
  have "\<And>tag. tag \<in> set (find_all check_good_link c) \<Longrightarrow> tag_get tag ''href'' \<noteq> None"
    using check_good_link_href by (fastforce simp: find_all_def)
  then have "first_new_url (find_all check_good_link c) (visited_pages self) =
      Inr (List.find (\<lambda>u. u \<notin> visited_pages self) (candidate_urls c))"
    unfolding candidate_urls_def by (rule first_new_url_find)
  with assms show ?thesis
    by (simp add: find_and_save_next_url_def split: option.splits)
qed

text \<open>
  Claim C5. For every content node and every visited set, \<open>_find_and_save_next_url\<close>
  either returns a candidate URL that is not in the visited set, every candidate before
  it in document order being in the visited set, or all candidates are visited and it
  prints the two lines of the dead end and exits. It never returns a visited URL.
\<close>

theorem link_selector_first_unvisited:
  assumes "content self = Some c"
  shows "(\<exists>pre new_url suf.
            candidate_urls c = pre @ new_url # suf
          \<and> set pre \<subseteq> visited_pages self
          \<and> new_url \<notin> visited_pages self
          \<and> find_and_save_next_url self current_url = ([], Normal new_url))
       \<or> (set (candidate_urls c) \<subseteq> visited_pages self
          \<and> find_and_save_next_url self current_url =
              ([Print_infinite_loop, Print_current_url (url self)], Exit DeadEnd))"
proof (cases "List.find (\<lambda>u. u \<notin> visited_pages self) (candidate_urls c)")
  case None
  then have "set (candidate_urls c) \<subseteq> visited_pages self"
    by (auto simp: find_None_iff)
  moreover have "find_and_save_next_url self current_url =
      ([Print_infinite_loop, Print_current_url (url self)], Exit DeadEnd)"
    using None by (simp add: find_and_save_next_url_find [OF assms])
  ultimately show ?thesis by blast
next
  case (Some new_url)
  from find_Some_decomp [OF Some] obtain pre suf where
    d: "candidate_urls c = pre @ new_url # suf"
    and p: "\<forall>y\<in>set pre. \<not> y \<notin> visited_pages self"
    and n: "new_url \<notin> visited_pages self"
    by blast
  from p have "set pre \<subseteq> visited_pages self" by blast
  moreover have "find_and_save_next_url self current_url = ([], Normal new_url)"
    using Some by (simp add: find_and_save_next_url_find [OF assms])
  ultimately show ?thesis using d n by blast
qed

theorem link_selector_first_unvisited_witness:
  "content cat_crawler = Some (Tag ''div'' [''id'' \<mapsto> ''mw-content-text''] cat_body)
   \<and> candidate_urls (Tag ''div'' [''id'' \<mapsto> ''mw-content-text''] cat_body) = [cat_url, philosophy_url]
   \<and> visited_pages cat_crawler = {cat_url}
   \<and> find_and_save_next_url cat_crawler cat_url = ([], Normal philosophy_url)"
proof -
  let ?c = "Tag ''div'' [''id'' \<mapsto> ''mw-content-text''] cat_body"
  have h: "content cat_crawler = Some ?c"
    by (simp add: cat_crawler_def)
  have c: "candidate_urls ?c = [cat_url, philosophy_url]"
    by code_simp
  have v: "visited_pages cat_crawler = {cat_url}"
    by (simp add: cat_crawler_def)
  have n: "philosophy_url \<noteq> cat_url" by code_simp
  from link_selector_first_unvisited [OF h, of cat_url]
  have "find_and_save_next_url cat_crawler cat_url = ([], Normal philosophy_url)"
    unfolding c v using n by (auto simp: Cons_eq_append_conv)
  with h c v show ?thesis by simp
qed

lemma first_new_url_source:
  "first_new_url tags visited = Inr (Some new_url) \<Longrightarrow>
   \<exists>tag href. tag \<in> set tags \<and> tag_get tag ''href'' = Some href
      \<and> new_url = ''https://en.wikipedia.org'' @ href"
proof (induction tags)
  case Nil
  then show ?case by simp
next
  case (Cons t tags)
  then show ?case
    by (cases "tag_get t ''href''") (auto simp: Let_def split: if_splits)
qed

lemma check_good_link_iff:
  "check_good_link (Tag name attrs contents) \<longleftrightarrow>
     name = ''a'' \<and> (\<exists>href. attrs ''href'' = Some href \<and> prefix ''/wiki'' href
        \<and> CHR '':'' \<notin> set href)"
  by (cases "attrs ''href''") (simp_all add: startswith_prefix)

text \<open>
  Claim C6. A tag qualifies as a link candidate if and only if it is an anchor that has
  an \<open>href\<close> attribute, the \<open>href\<close> starts with \<open>/wiki\<close> and the \<open>href\<close> contains
  no colon. The URL \<open>_find_and_save_next_url\<close> returns is the \<open>href\<close> of a qualifying
  tag of the content with exactly \<open>https://en.wikipedia.org\<close> put in front.
\<close>

theorem check_good_link_spec:
  "(check_good_link (Tag name attrs contents) \<longleftrightarrow>
      name = ''a'' \<and> (\<exists>href. attrs ''href'' = Some href \<and> prefix ''/wiki'' href
        \<and> CHR '':'' \<notin> set href))
   \<and> (content self = Some c
        \<and> find_and_save_next_url self current_url = (out, Normal new_url) \<longrightarrow>
      (\<exists>tag href. tag \<in> set (descendants c) \<and> check_good_link tag
         \<and> tag_get tag ''href'' = Some href
         \<and> new_url = ''https://en.wikipedia.org'' @ href))"
proof (intro conjI impI)
  show "check_good_link (Tag name attrs contents) \<longleftrightarrow>
      name = ''a'' \<and> (\<exists>href. attrs ''href'' = Some href \<and> prefix ''/wiki'' href
        \<and> CHR '':'' \<notin> set href)"
    by (rule check_good_link_iff)
next
  assume a: "content self = Some c
     \<and> find_and_save_next_url self current_url = (out, Normal new_url)"
  then have "first_new_url (find_all check_good_link c) (visited_pages self)
      = Inr (Some new_url)"
    by (auto simp: find_and_save_next_url_def split: sum.splits option.splits)
  from first_new_url_source [OF this] obtain tag href where
    "tag \<in> set (find_all check_good_link c)" "tag_get tag ''href'' = Some href"
    "new_url = ''https://en.wikipedia.org'' @ href"
    by blast
  then show "\<exists>tag href. tag \<in> set (descendants c) \<and> check_good_link tag
         \<and> tag_get tag ''href'' = Some href
         \<and> new_url = ''https://en.wikipedia.org'' @ href"
    by (auto simp: find_all_def)
qed

theorem check_good_link_spec_witness:
  "check_good_link (anchor ''/wiki/Bar'')
   \<and> \<not> check_good_link (anchor ''/wiki/Cat:Foo'')
   \<and> \<not> check_good_link (anchor ''/other'')
   \<and> \<not> check_good_link (Tag ''a'' Map.empty [])
   \<and> content cat_crawler = Some (Tag ''div'' [''id'' \<mapsto> ''mw-content-text''] cat_body)
   \<and> find_and_save_next_url cat_crawler cat_url = ([], Normal philosophy_url)
   \<and> (\<exists>tag href. tag \<in> set (descendants (Tag ''div'' [''id'' \<mapsto> ''mw-content-text''] cat_body))
         \<and> check_good_link tag \<and> tag_get tag ''href'' = Some href
         \<and> philosophy_url = ''https://en.wikipedia.org'' @ href)"
proof -
  let ?c = "Tag ''div'' [''id'' \<mapsto> ''mw-content-text''] cat_body"
  have e1: "check_good_link (anchor ''/wiki/Bar'')" by code_simp
  have e2: "\<not> check_good_link (anchor ''/wiki/Cat:Foo'')" by code_simp
  have e3: "\<not> check_good_link (anchor ''/other'')" by code_simp
  have e4: "\<not> check_good_link (Tag ''a'' Map.empty [])" by code_simp
  have h: "content cat_crawler = Some ?c" by (simp add: cat_crawler_def)
  have f: "find_and_save_next_url cat_crawler cat_url = ([], Normal philosophy_url)"
    by code_simp
  from check_good_link_spec [of "''a''" Map.empty "[]" cat_crawler ?c cat_url "[]" philosophy_url]
    h f
  have "\<exists>tag href. tag \<in> set (descendants ?c) \<and> check_good_link tag
         \<and> tag_get tag ''href'' = Some href
         \<and> philosophy_url = ''https://en.wikipedia.org'' @ href"
    by blast
  with e1 e2 e3 e4 h f show ?thesis by blast
qed

section \<open>The statistics\<close>

lemma truncating_division_nonneg:
  "0 \<le> a \<Longrightarrow> 1 \<le> b \<Longrightarrow> truncating_division a b = a div b"
  by (cases "a = 0") (simp_all add: truncating_division_def)

text \<open>
  Claim C9. For a word total that is not negative (it is a sum of list lengths) and a
  number of iterations of at least 1, the average \<open>_print_statistics\<close> prints is the
  truncating integer division of the total by the number of iterations. A total of 100
  over 3 iterations gives 33.
\<close>

theorem print_statistics_average:
  assumes "1 \<le> number_of_iterations"
      and "0 \<le> total_number_of_words_on_wiki_pages self"
  shows "print_statistics self number_of_iterations =
           ([Print_top_ten (most_common 10 (wiki_words_counter self)),
             Print_average (truncating_division
               (total_number_of_words_on_wiki_pages self) number_of_iterations)],
            None)"
  using assms by (simp add: print_statistics_def truncating_division_nonneg)

theorem print_statistics_average_witness:
  "(1::int) \<le> 3
   \<and> 0 \<le> total_number_of_words_on_wiki_pages
         ((init random_url 3)\<lparr>total_number_of_words_on_wiki_pages := 100\<rparr>)
   \<and> print_statistics ((init random_url 3)\<lparr>total_number_of_words_on_wiki_pages := 100\<rparr>) 3
       = ([Print_top_ten [], Print_average 33], None)"
proof -
  let ?s = "(init random_url 3)\<lparr>total_number_of_words_on_wiki_pages := 100\<rparr>"
  have a: "(1::int) \<le> 3" by simp
  have b: "0 \<le> total_number_of_words_on_wiki_pages ?s" by simp
  have c: "most_common 10 (wiki_words_counter ?s) = []" by code_simp
  have d: "truncating_division (total_number_of_words_on_wiki_pages ?s) 3 = 33"
    by (simp add: truncating_division_def)
  from print_statistics_average [OF a b] have
    "print_statistics ?s 3 = ([Print_top_ten [], Print_average 33], None)"
    unfolding c d .
  with a b show ?thesis by blast
qed

section \<open>The visited set\<close>

lemma get_words_from_page_content:
  "content self = Some c \<Longrightarrow> \<exists>words. get_words_from_page self = Inr words"
  by (simp add: get_words_from_page_def)

lemma parse_and_count_words_fetched:
  assumes "get i (url self) = Inr resp"
      and "parse_and_count_words get i self = (self', out, r)"
  shows "visited_pages self' = insert (resp_url resp) (visited_pages self)"
    and "heading self' = find_id (soup resp) ''firstHeading''"
    and "content self' = find_id (soup resp) ''mw-content-text''"
    and "r = Normal () \<Longrightarrow> \<exists>c. content self' = Some c
          \<and> first_new_url (find_all check_good_link c)
               (insert (resp_url resp) (visited_pages self)) = Inr (Some (url self'))"
    and "r = Exit e \<Longrightarrow> e = DeadEnd \<and> (\<exists>c. content self' = Some c
          \<and> first_new_url (find_all check_good_link c)
               (insert (resp_url resp) (visited_pages self)) = Inr None)"
  using assms
  by (auto simp: parse_and_count_words_def find_and_save_next_url_def Let_def
      split: sum.splits option.splits prod.splits ctl.splits)

lemma parse_and_count_words_failed:
  assumes "get i (url self) = Inl e"
  shows "parse_and_count_words get i self = (self, [], Raised e)"
  using assms by (simp add: parse_and_count_words_def)

lemma parse_and_count_words_visited_mono:
  assumes "parse_and_count_words get i self = (self', out, r)"
  shows "visited_pages self \<subseteq> visited_pages self'"
proof (cases "get i (url self)")
  case (Inl e)
  with assms show ?thesis by (simp add: parse_and_count_words_failed)
next
  case (Inr resp)
  from parse_and_count_words_fetched(1) [OF Inr assms] show ?thesis by blast
qed

lemma try_body_crawler:
  "fst (try_body get i self) = fst (parse_and_count_words get i self)"
  by (simp add: try_body_def Let_def split: prod.splits ctl.splits option.splits)

lemma try_body_visited_mono:
  assumes "try_body get i self = (self', out, r)"
  shows "visited_pages self \<subseteq> visited_pages self'"
proof -
  obtain s o' r' where p: "parse_and_count_words get i self = (s, o', r')"
    by (cases "parse_and_count_words get i self") auto
  with assms try_body_crawler [of get i self] have "s = self'" by simp
  with parse_and_count_words_visited_mono [OF p] show ?thesis by simp
qed

lemma after_loop_final: "final (after_loop self out) = self"
  by (simp add: after_loop_def Let_def split: prod.splits option.splits)

lemma for_loop_visited_mono:
  "visited_pages self \<subseteq> visited_pages (final (for_loop get indices self out))"
proof (induction indices arbitrary: self out)
  case Nil
  then show ?case by (simp add: after_loop_final)
next
  case (Cons i rest)
  obtain s ls r where t: "try_body get i self = (s, ls, r)"
    by (cases "try_body get i self") auto
  from try_body_visited_mono [OF t] have m: "visited_pages self \<subseteq> visited_pages s" .
  show ?case
  proof (cases r)
    case (Normal u)
    with t have "for_loop get (i # rest) self out = for_loop get rest s (out @ ls)"
      by simp
    with m Cons.IH [of s "out @ ls"] show ?thesis by auto
  next
    case (Raised e)
    with t m show ?thesis by simp
  next
    case (Exit e)
    with t m show ?thesis by simp
  qed
qed

lemma first_new_url_unvisited:
  "first_new_url tags visited = Inr (Some new_url) \<Longrightarrow> new_url \<notin> visited"
proof (induction tags)
  case Nil
  then show ?case by simp
next
  case (Cons t tags)
  then show ?case
    by (cases "tag_get t ''href''") (auto simp: Let_def split: if_splits)
qed

text \<open>
  Claim C7. When a page has been fetched, the visited set becomes the old set with the
  final URL of the response (not the requested URL) added, and the link selection of
  that iteration runs against this enlarged set: the URL it returns is neither the
  final URL nor an earlier visited one. The visited set never loses an element, in one
  iteration or over the rest of the run.
\<close>

theorem final_url_visited_before_selection:
  assumes "get i (url self) = Inr resp"
      and "parse_and_count_words get i self = (self', out, r)"
  shows "visited_pages self' = insert (resp_url resp) (visited_pages self)
       \<and> (r = Normal () \<longrightarrow>
            (\<exists>c. content self' = Some c
               \<and> first_new_url (find_all check_good_link c)
                    (insert (resp_url resp) (visited_pages self)) = Inr (Some (url self')))
            \<and> url self' \<noteq> resp_url resp \<and> url self' \<notin> visited_pages self)
       \<and> visited_pages self \<subseteq> visited_pages self'
       \<and> visited_pages self' \<subseteq> visited_pages (final (for_loop get rest self' out'))
       \<and> visited_pages self \<subseteq> visited_pages (final (run get self))"
proof -
  have a: "visited_pages self' = insert (resp_url resp) (visited_pages self)"
    by (rule parse_and_count_words_fetched(1) [OF assms])
  have b: "r = Normal () \<longrightarrow>
            (\<exists>c. content self' = Some c
               \<and> first_new_url (find_all check_good_link c)
                    (insert (resp_url resp) (visited_pages self)) = Inr (Some (url self')))
            \<and> url self' \<noteq> resp_url resp \<and> url self' \<notin> visited_pages self"
  proof
    assume n: "r = Normal ()"
    from parse_and_count_words_fetched(4) [OF assms n] obtain c where
      c: "content self' = Some c"
      and f: "first_new_url (find_all check_good_link c)
                (insert (resp_url resp) (visited_pages self)) = Inr (Some (url self'))"
      by blast
    from first_new_url_unvisited [OF f]
    have "url self' \<noteq> resp_url resp \<and> url self' \<notin> visited_pages self" by simp
    with c f show "(\<exists>c. content self' = Some c
               \<and> first_new_url (find_all check_good_link c)
                    (insert (resp_url resp) (visited_pages self)) = Inr (Some (url self')))
            \<and> url self' \<noteq> resp_url resp \<and> url self' \<notin> visited_pages self"
      by blast
  qed
  have c: "visited_pages self \<subseteq> visited_pages self'"
    by (rule parse_and_count_words_visited_mono [OF assms(2)])
  have d: "visited_pages self' \<subseteq> visited_pages (final (for_loop get rest self' out'))"
    by (rule for_loop_visited_mono)
  have e: "visited_pages self \<subseteq> visited_pages (final (run get self))"
    unfolding run_def by (rule for_loop_visited_mono)
  from a b c d e show ?thesis by blast
qed

theorem final_url_visited_before_selection_witness:
  "cycle_wiki 0 (url (init random_url 3)) = Inr \<lparr>resp_url = cat_url, soup = cat_page\<rparr>
   \<and> snd (snd (parse_and_count_words cycle_wiki 0 (init random_url 3))) = Normal ()
   \<and> visited_pages (fst (parse_and_count_words cycle_wiki 0 (init random_url 3))) = {cat_url}
   \<and> random_url \<notin> visited_pages (fst (parse_and_count_words cycle_wiki 0 (init random_url 3)))
   \<and> url (fst (parse_and_count_words cycle_wiki 0 (init random_url 3))) = philosophy_url
   \<and> philosophy_url \<noteq> cat_url"
proof -
  let ?p = "parse_and_count_words cycle_wiki 0 (init random_url 3)"
  let ?resp = "\<lparr>resp_url = cat_url, soup = cat_page\<rparr>"
  have h1: "cycle_wiki 0 (url (init random_url 3)) = Inr ?resp"
    by (simp add: cycle_wiki_def wiki_def init_def)
  have h2: "?p = (fst ?p, fst (snd ?p), snd (snd ?p))" by simp
  have n: "snd (snd ?p) = Normal ()" by code_simp
  have u: "url (fst ?p) = philosophy_url" by code_simp
  have r: "random_url \<noteq> cat_url" by code_simp
  from final_url_visited_before_selection [OF h1 h2, of "[]" "[]"]
  have v: "visited_pages (fst ?p) = insert (resp_url ?resp) (visited_pages (init random_url 3))"
    and d: "snd (snd ?p) = Normal () \<longrightarrow> url (fst ?p) \<noteq> resp_url ?resp"
    by blast+
  from v have v': "visited_pages (fst ?p) = {cat_url}" by (simp add: init_def)
  from d n u have "philosophy_url \<noteq> cat_url" by simp
  with h1 n v' r u show ?thesis by simp
qed

section \<open>Reaching Philosophy\<close>

lemma parse_and_count_words_selected:
  assumes "get i (url self) = Inr resp"
      and "find_id (soup resp) ''mw-content-text'' = Some c"
      and "first_new_url (find_all check_good_link c)
             (insert (resp_url resp) (visited_pages self)) = Inr (Some new_url)"
  shows "\<exists>self'. parse_and_count_words get i self = (self', [], Normal ())
           \<and> heading self' = find_id (soup resp) ''firstHeading''
           \<and> url self' = new_url
           \<and> visited_pages self' = insert (resp_url resp) (visited_pages self)"
  using assms
  by (simp add: parse_and_count_words_def find_and_save_next_url_def
      get_words_from_page_def Let_def)

text \<open>
  Claim C2, as the code has it. \<open>_parse_and_count_words\<close> selects the next link
  before \<open>run\<close> looks at the heading. In every iteration \<open>i\<close> in which the fetched
  page's heading text is exactly \<open>Philosophy\<close> and the link selection on that page
  returns a URL, the run prints the heading, the line with the iteration index \<open>i\<close>
  and the two statistics lines computed for \<open>i + 1\<close> pages, and exits as
  \<open>FoundPhilosophy\<close>; the selected URL has already been stored.
\<close>

theorem philosophy_found_after_link_selection:
  assumes "get i (url self) = Inr resp"
      and "find_id (soup resp) ''firstHeading'' = Some h"
      and "get_text h = ''Philosophy''"
      and "find_id (soup resp) ''mw-content-text'' = Some c"
      and "first_new_url (find_all check_good_link c)
             (insert (resp_url resp) (visited_pages self)) = Inr (Some new_url)"
  shows "\<exists>s. for_loop get (i # rest) self out =
            \<lparr>printed = out @
               [Print_heading ''Philosophy'',
                Print_found i,
                Print_top_ten (most_common 10 (wiki_words_counter s)),
                Print_average (total_number_of_words_on_wiki_pages s div (int i + 1))],
             ending = FoundPhilosophy,
             final = s\<rparr>
          \<and> url s = new_url
          \<and> visited_pages s = insert (resp_url resp) (visited_pages self)"
proof -
  from assms(1) assms(4) assms(5)
    parse_and_count_words_selected [of get i self resp c new_url]
  obtain s where p: "parse_and_count_words get i self = (s, [], Normal ())"
    and hd: "heading s = find_id (soup resp) ''firstHeading''"
    and u: "url s = new_url"
    and v: "visited_pages s = insert (resp_url resp) (visited_pages self)"
    by blast
  have n: "int i + 1 \<noteq> 0" by simp
  have t: "try_body get i self =
      (s, [Print_heading ''Philosophy'', Print_found i,
           Print_top_ten (most_common 10 (wiki_words_counter s)),
           Print_average (total_number_of_words_on_wiki_pages s div (int i + 1))],
       Exit FoundPhilosophy)"
    using p hd assms(2) assms(3) n
    by (simp add: try_body_def print_statistics_def Let_def)
  then have "for_loop get (i # rest) self out =
            \<lparr>printed = out @
               [Print_heading ''Philosophy'',
                Print_found i,
                Print_top_ten (most_common 10 (wiki_words_counter s)),
                Print_average (total_number_of_words_on_wiki_pages s div (int i + 1))],
             ending = FoundPhilosophy,
             final = s\<rparr>"
    by simp
  with u v show ?thesis by blast
qed

theorem philosophy_found_after_link_selection_witness:
  "onward_wiki 0 (url (init philosophy_url 3)) =
     Inr \<lparr>resp_url = philosophy_url, soup = philosophy_page_onward\<rparr>
   \<and> map_option get_text (find_id philosophy_page_onward ''firstHeading'') = Some ''Philosophy''
   \<and> ending (run onward_wiki (init philosophy_url 3)) = FoundPhilosophy
   \<and> url (final (run onward_wiki (init philosophy_url 3))) = cat_url
   \<and> printed (run onward_wiki (init philosophy_url 3)) =
       [Print_heading ''Philosophy'', Print_found 0,
        Print_top_ten [(''wisdom'', 1)], Print_average 1]"
proof -
  let ?resp = "\<lparr>resp_url = philosophy_url, soup = philosophy_page_onward\<rparr>"
  let ?h = "Tag ''h1'' [''id'' \<mapsto> ''firstHeading''] [NavigableString ''Philosophy'']"
  let ?c = "Tag ''div'' [''id'' \<mapsto> ''mw-content-text'']
              [Tag ''p'' Map.empty
                 [NavigableString ''Love of wisdom'', anchor ''/wiki/Cat'',
                  anchor ''/wiki/Truth'']]"
  let ?r = "run onward_wiki (init philosophy_url 3)"
  have h1: "onward_wiki 0 (url (init philosophy_url 3)) = Inr ?resp"
    by (simp add: onward_wiki_def wiki_def init_def philosophy_url_def random_url_def)
  have h2: "find_id (soup ?resp) ''firstHeading'' = Some ?h"
    by (simp add: find_id_def philosophy_page_onward_def page_def anchor_def)
  have h3: "get_text ?h = ''Philosophy''"
    by (simp add: get_text_def)
  have h4: "find_id (soup ?resp) ''mw-content-text'' = Some ?c"
    by (simp add: find_id_def philosophy_page_onward_def page_def anchor_def)
  have h5: "first_new_url (find_all check_good_link ?c)
      (insert (resp_url ?resp) (visited_pages (init philosophy_url 3))) = Inr (Some cat_url)"
    by code_simp
  have l: "[0..<nat (max_page_number (init philosophy_url 3))] = [0, 1, 2]"
    by code_simp
  have r: "?r = for_loop onward_wiki (0 # [1, 2]) (init philosophy_url 3) []"
    by (simp only: run_def l)
  from h1 h2 h3 h4 h5
    philosophy_found_after_link_selection
      [where get = onward_wiki and i = 0 and self = "init philosophy_url 3"
         and resp = ?resp and h = ?h and c = ?c and new_url = cat_url
         and rest = "[1, 2]" and out = "[]"]
  obtain s where "?r = \<lparr>printed = [] @
               [Print_heading ''Philosophy'',
                Print_found 0,
                Print_top_ten (most_common 10 (wiki_words_counter s)),
                Print_average (total_number_of_words_on_wiki_pages s div (int 0 + 1))],
             ending = FoundPhilosophy,
             final = s\<rparr>" and "url s = cat_url"
    unfolding r by blast
  then have e: "ending ?r = FoundPhilosophy" and u: "url (final ?r) = cat_url"
    by simp_all
  have g: "map_option get_text (find_id philosophy_page_onward ''firstHeading'')
      = Some ''Philosophy''"
    using h2 h3 by simp
  have p: "printed ?r = [Print_heading ''Philosophy'', Print_found 0,
        Print_top_ten [(''wisdom'', 1)], Print_average 1]"
    by code_simp
  from h1 g e u p show ?thesis by blast
qed

text \<open>
  The run that starts at the Cat article reaches the Philosophy article in its second
  iteration. The only qualifying link of that article leads back to the Cat article,
  so the link selection exits with the dead-end report before the heading is tested.
\<close>

theorem philosophy_page_dead_end_counterexample:
  "url (fst (try_body cycle_wiki 0 (init random_url 3))) = philosophy_url
   \<and> map_option get_text (find_id philosophy_page ''firstHeading'') = Some ''Philosophy''
   \<and> map_option get_text (heading (final (run cycle_wiki (init random_url 3))))
       = Some ''Philosophy''
   \<and> ending (run cycle_wiki (init random_url 3)) = DeadEnd
   \<and> ending (run cycle_wiki (init random_url 3)) \<noteq> FoundPhilosophy
   \<and> printed (run cycle_wiki (init random_url 3)) =
       [Print_heading ''Cat'', Print_infinite_loop, Print_current_url philosophy_url]"
proof -
  have a: "url (fst (try_body cycle_wiki 0 (init random_url 3))) = philosophy_url"
    by code_simp
  have b: "map_option get_text (find_id philosophy_page ''firstHeading'') = Some ''Philosophy''"
    by code_simp
  have c: "map_option get_text (heading (final (run cycle_wiki (init random_url 3))))
       = Some ''Philosophy''"
    by code_simp
  have d: "ending (run cycle_wiki (init random_url 3)) = DeadEnd"
    by code_simp
  have e: "printed (run cycle_wiki (init random_url 3)) =
       [Print_heading ''Cat'', Print_infinite_loop, Print_current_url philosophy_url]"
    by code_simp
  from a b c d e show ?thesis by simp
qed

section \<open>Word extraction\<close>

lemma fold_assign_last:
  "fold (\<lambda>word prepared_word. f word) ws a = (if ws = [] then a else f (last ws))"
  by (induction ws arbitrary: a) auto

lemma fold_append_filter:
  "fold (\<lambda>x acc. if g x \<noteq> [] then acc @ [g x] else acc) xs acc
     = acc @ filter (\<lambda>w. w \<noteq> []) (map g xs)"
  by (induction xs arbitrary: acc) auto

lemma get_words_from_page_last_words:
  assumes "content self = Some c"
  shows "get_words_from_page self =
     Inr (filter (\<lambda>w. w \<noteq> [])
            (map (\<lambda>s. if split s = [] then []
                       else strip_and_lowercase_the_word (last (split s)))
               (stripped_strings c)))"
proof -
  let ?h = "\<lambda>ws. if ws = [] then [] else strip_and_lowercase_the_word (last ws)"
  have "get_words_from_page self =
      Inr (fold (\<lambda>x acc. if ?h x \<noteq> [] then acc @ [?h x] else acc)
             (map split (stripped_strings c)) [])"
    using assms by (simp add: get_words_from_page_def Let_def fold_assign_last)
  also have "\<dots> = Inr ([] @ filter (\<lambda>w. w \<noteq> [])
                         (map ?h (map split (stripped_strings c))))"
    by (simp only: fold_append_filter)
  also have "\<dots> = Inr (filter (\<lambda>w. w \<noteq> [])
            (map (\<lambda>s. if split s = [] then []
                       else strip_and_lowercase_the_word (last (split s)))
               (stripped_strings c)))"
    by (simp add: comp_def)
  finally show ?thesis .
qed

lemma get_words_from_page_length:
  assumes "content self = Some c" and "get_words_from_page self = Inr words"
  shows "length words \<le> length (stripped_strings c)"
proof -
  from assms get_words_from_page_last_words [OF assms(1)]
  have "words = filter (\<lambda>w. w \<noteq> [])
            (map (\<lambda>s. if split s = [] then []
                       else strip_and_lowercase_the_word (last (split s)))
               (stripped_strings c))"
    by simp
  then have "length words \<le> length (map (\<lambda>s. if split s = [] then []
                       else strip_and_lowercase_the_word (last (split s)))
               (stripped_strings c))"
    by (simp only: length_filter_le)
  then show ?thesis by simp
qed

text \<open>
  Claim C1 at the content of the Cat article, whose only string is
  \<open>Hello big world\<close>. The three tokens normalize to \<open>hello\<close>, \<open>big\<close> and
  \<open>world\<close>, none of them empty, but \<open>_get_words_from_page\<close> returns only
  \<open>world\<close>: the counter gets one word and the total grows by 1, not by 3.
\<close>

theorem only_last_word_of_each_string_counted:
  "stripped_strings (Tag ''div'' [''id'' \<mapsto> ''mw-content-text''] cat_body)
     = [''Hello big world'']
   \<and> map strip_and_lowercase_the_word (split ''Hello big world'')
     = [''hello'', ''big'', ''world'']
   \<and> get_words_from_page cat_crawler = Inr [''world'']
   \<and> wiki_words_counter (fst (parse_and_count_words cycle_wiki 0 (init random_url 3)))
     = [(''world'', 1)]
   \<and> total_number_of_words_on_wiki_pages
       (fst (parse_and_count_words cycle_wiki 0 (init random_url 3))) = 1"
proof -
  have a: "stripped_strings (Tag ''div'' [''id'' \<mapsto> ''mw-content-text''] cat_body)
     = [''Hello big world'']"
    by code_simp
  have b: "map strip_and_lowercase_the_word (split ''Hello big world'')
     = [''hello'', ''big'', ''world'']"
    by code_simp
  have c: "get_words_from_page cat_crawler = Inr [''world'']"
    by code_simp
  have d: "wiki_words_counter (fst (parse_and_count_words cycle_wiki 0 (init random_url 3)))
     = [(''world'', 1)]"
    by code_simp
  have e: "total_number_of_words_on_wiki_pages
       (fst (parse_and_count_words cycle_wiki 0 (init random_url 3))) = 1"
    by code_simp
  from a b c d e show ?thesis by simp
qed

lemma parse_and_count_words_total:
  "parse_and_count_words get i self = (self', out, r) \<Longrightarrow>
   total_number_of_words_on_wiki_pages self \<le> total_number_of_words_on_wiki_pages self'"
  by (auto simp: parse_and_count_words_def Let_def
      split: sum.splits prod.splits ctl.splits)

lemma for_loop_total:
  "total_number_of_words_on_wiki_pages self
     \<le> total_number_of_words_on_wiki_pages (final (for_loop get indices self out))"
proof (induction indices arbitrary: self out)
  case Nil
  then show ?case by (simp add: after_loop_final)
next
  case (Cons i rest)
  obtain s ls r where t: "try_body get i self = (s, ls, r)"
    by (cases "try_body get i self") auto
  obtain s' o' r' where p: "parse_and_count_words get i self = (s', o', r')"
    by (cases "parse_and_count_words get i self") auto
  with t try_body_crawler [of get i self] have "s' = s" by simp
  with parse_and_count_words_total [OF p]
  have m: "total_number_of_words_on_wiki_pages self \<le> total_number_of_words_on_wiki_pages s"
    by simp
  show ?case
  proof (cases r)
    case (Normal u)
    with t have "for_loop get (i # rest) self out = for_loop get rest s (out @ ls)"
      by simp
    with m Cons.IH [of s "out @ ls"] show ?thesis by simp
  next
    case (Raised e)
    with t m show ?thesis by simp
  next
    case (Exit e)
    with t m show ?thesis by simp
  qed
qed

lemma run_total_nonneg:
  "0 \<le> total_number_of_words_on_wiki_pages (final (run get (init starting_url max_pages)))"
proof -
  have "total_number_of_words_on_wiki_pages (init starting_url max_pages) = 0"
    by (simp add: init_def)
  with for_loop_total [of "init starting_url max_pages" get
      "[0..<nat (max_page_number (init starting_url max_pages))]" "[]"]
  show ?thesis by (simp add: run_def)
qed

section \<open>Endings and exit codes\<close>

lemma run_zero_budget:
  "run get (init starting_url 0) =
     \<lparr>printed = [Print_not_found 0, Print_top_ten []],
      ending = Uncaught ZeroDivisionError,
      final = init starting_url 0\<rparr>"
  by (simp add: run_def after_loop_def print_statistics_def init_def most_common_def
      Counter_def)

text \<open>
  Claim C10, as the code has it. With \<open>max_page_number = 0\<close> the loop of \<open>run\<close>
  makes no iteration and no request. \<open>run\<close> prints the line of the exhausted budget
  and calls \<open>_print_statistics(0)\<close>, which prints the line of the ten most used words
  (an empty list) and then raises \<open>ZeroDivisionError\<close> while it formats the average.
  Nothing catches the exception, the average is not printed, and the exit code is 1.
\<close>

theorem zero_budget_crash_after_top_ten:
  "run get (init starting_url 0) =
     \<lparr>printed = [Print_not_found 0, Print_top_ten []],
      ending = Uncaught ZeroDivisionError,
      final = init starting_url 0\<rparr>
   \<and> exit_code (ending (run get (init starting_url 0))) = 1"
  by (simp add: run_zero_budget)

text \<open>With a budget of 0 the first statistics line is among the printed lines.\<close>

theorem zero_budget_prints_top_ten_counterexample:
  "Print_top_ten [] \<in> set (printed (run island_wiki (init island_url 0)))"
  by (simp add: run_zero_budget)

text \<open>
  Claim C4 at \<open>max_page_number = 0\<close>: for every network and every starting URL the
  process ends with exit code 1, not 0. For every other budget the exit code is 0
  (\<open>run_exit_code\<close> below).
\<close>

theorem zero_budget_exit_code:
  "exit_code (ending (run get (init starting_url 0))) = 1
   \<and> exit_code (ending (run get (init starting_url 0))) \<noteq> 0"
  by (simp add: run_zero_budget)

lemma parse_and_count_words_max_page_number:
  "parse_and_count_words get i self = (self', out, r) \<Longrightarrow>
   max_page_number self' = max_page_number self"
  by (auto simp: parse_and_count_words_def Let_def
      split: sum.splits prod.splits ctl.splits)

lemma parse_and_count_words_exit:
  "parse_and_count_words get i self = (self', out, Exit e) \<Longrightarrow> e = DeadEnd"
  by (auto simp: parse_and_count_words_def find_and_save_next_url_def Let_def
      split: sum.splits prod.splits ctl.splits option.splits)

lemma try_body_max_page_number:
  assumes "try_body get i self = (self', out, r)"
  shows "max_page_number self' = max_page_number self"
proof -
  obtain s o' r' where p: "parse_and_count_words get i self = (s, o', r')"
    by (cases "parse_and_count_words get i self") auto
  with assms try_body_crawler [of get i self] have "s = self'" by simp
  with parse_and_count_words_max_page_number [OF p] show ?thesis by simp
qed

lemma try_body_exit:
  assumes "try_body get i self = (self', out, Exit e)"
  shows "e = DeadEnd \<or> e = FoundPhilosophy"
proof -
  obtain s o' r' where p: "parse_and_count_words get i self = (s, o', r')"
    by (cases "parse_and_count_words get i self") auto
  show ?thesis
  proof (cases r')
    case (Normal u)
    with assms p show ?thesis
      by (auto simp: try_body_def Let_def split: option.splits if_splits prod.splits)
  next
    case (Raised x)
    with assms p show ?thesis by (simp add: try_body_def)
  next
    case (Exit t)
    with p parse_and_count_words_exit [of get i self s o' t] have "t = DeadEnd" by simp
    with assms p Exit show ?thesis by (simp add: try_body_def)
  qed
qed

lemma after_loop_exit_code:
  "max_page_number self \<noteq> 0 \<Longrightarrow> exit_code (ending (after_loop self out)) = 0"
  by (simp add: after_loop_def print_statistics_def Let_def)

lemma for_loop_exit_code:
  "max_page_number self \<noteq> 0 \<Longrightarrow> exit_code (ending (for_loop get indices self out)) = 0"
proof (induction indices arbitrary: self out)
  case Nil
  then show ?case by (simp add: after_loop_exit_code)
next
  case (Cons i rest)
  obtain s ls r where t: "try_body get i self = (s, ls, r)"
    by (cases "try_body get i self") auto
  from try_body_max_page_number [OF t] Cons.prems have m: "max_page_number s \<noteq> 0"
    by simp
  show ?case
  proof (cases r)
    case (Normal u)
    with t have "for_loop get (i # rest) self out = for_loop get rest s (out @ ls)"
      by simp
    with Cons.IH [OF m] show ?thesis by simp
  next
    case (Raised e)
    with t show ?thesis by simp
  next
    case (Exit e)
    with t try_body_exit [of get i self s ls e] have "e = DeadEnd \<or> e = FoundPhilosophy"
      by simp
    with t Exit show ?thesis by auto
  qed
qed

lemma run_exit_code:
  "max_page_number self \<noteq> 0 \<Longrightarrow> exit_code (ending (run get self)) = 0"
  unfolding run_def by (rule for_loop_exit_code)

lemma try_body_printed:
  assumes "try_body get i self = (self', ls, r)"
  shows "r = Normal () \<Longrightarrow> \<forall>l\<in>set ls. \<not> is_statistics l"
    and "r = Exit DeadEnd \<Longrightarrow> \<forall>l\<in>set ls. \<not> is_statistics l"
  using assms
  by (auto simp: try_body_def parse_and_count_words_def find_and_save_next_url_def
      print_statistics_def Let_def
      split: sum.splits prod.splits ctl.splits option.splits if_splits)

lemma after_loop_not_dead_end: "ending (after_loop self out) \<noteq> DeadEnd"
  by (simp add: after_loop_def print_statistics_def Let_def)

lemma for_loop_dead_end_no_statistics:
  "\<forall>l\<in>set out. \<not> is_statistics l \<Longrightarrow>
   ending (for_loop get indices self out) = DeadEnd \<Longrightarrow>
   \<forall>l\<in>set (printed (for_loop get indices self out)). \<not> is_statistics l"
proof (induction indices arbitrary: self out)
  case Nil
  then show ?case by (simp add: after_loop_not_dead_end)
next
  case (Cons i rest)
  obtain s ls r where t: "try_body get i self = (s, ls, r)"
    by (cases "try_body get i self") auto
  show ?case
  proof (cases r)
    case (Normal u)
    with t have f: "for_loop get (i # rest) self out = for_loop get rest s (out @ ls)"
      by simp
    from Normal try_body_printed(1) [OF t] have "\<forall>l\<in>set ls. \<not> is_statistics l"
      by simp
    with Cons.prems(1) have "\<forall>l\<in>set (out @ ls). \<not> is_statistics l" by auto
    from Cons.IH [OF this] Cons.prems(2) show ?thesis unfolding f by simp
  next
    case (Raised e)
    with t Cons.prems(2) show ?thesis by simp
  next
    case (Exit e)
    with t Cons.prems(2) have "e = DeadEnd" by simp
    with Exit try_body_printed(2) [OF t] have "\<forall>l\<in>set ls. \<not> is_statistics l"
      by simp
    with t Exit Cons.prems(1) show ?thesis by auto
  qed
qed

lemma run_dead_end_no_statistics:
  "ending (run get self) = DeadEnd \<Longrightarrow>
   \<forall>l\<in>set (printed (run get self)). \<not> is_statistics l"
  unfolding run_def by (rule for_loop_dead_end_no_statistics) simp_all

text \<open>
  Claim C3 at an article without any link: the run ends as \<open>DeadEnd\<close> and the two
  lines of the dead-end report are all it prints; the statistics lines are missing.
  No run that ends as \<open>DeadEnd\<close> prints a statistics line
  (\<open>run_dead_end_no_statistics\<close> above).
\<close>

theorem dead_end_prints_no_statistics:
  "ending (run island_wiki (init island_url 3)) = DeadEnd
   \<and> printed (run island_wiki (init island_url 3))
     = [Print_infinite_loop, Print_current_url island_url]"
proof -
  have a: "ending (run island_wiki (init island_url 3)) = DeadEnd"
    by code_simp
  have b: "printed (run island_wiki (init island_url 3))
     = [Print_infinite_loop, Print_current_url island_url]"
    by code_simp
  from a b show ?thesis by simp
qed

end
